theory Spec2Isabelle
  imports Main
begin

section \<open>Python values used by gitifyhg.py\<close>

text \<open>
  The source is Python 2: strings read from \<^verbatim>\<open>sys.stdin\<close> are byte strings
  (modelled as \<^typ>\<open>string\<close>), integers are unbounded (modelled as \<^typ>\<open>int\<close>),
  \<^verbatim>\<open>/\<close> on integers is floor division and \<^verbatim>\<open>%\<close> takes the sign of the
  divisor, which is what \<open>div\<close> and \<open>mod\<close> on \<^typ>\<open>int\<close> do.
\<close>

datatype py_error =
    ValueError
  | IndexError
  | AttributeError
  | OverflowError
  | RepoLookupError
  | Die string

text \<open>The six bytes that \<^verbatim>\<open>str.strip()\<close> and \<^verbatim>\<open>str.split()\<close> treat as whitespace.\<close>

definition is_space :: "char \<Rightarrow> bool" where
  "is_space c \<longleftrightarrow>
     c = CHR '' '' \<or> c = CHR 0x09 \<or> c = CHR 0x0A \<or> c = CHR 0x0B \<or> c = CHR 0x0C \<or> c = CHR 0x0D"

text \<open>\<^verbatim>\<open>s.strip()\<close>\<close>

definition strip :: "string \<Rightarrow> string" where
  "strip s = rev (dropWhile is_space (rev (dropWhile is_space s)))"


text \<open>\<^verbatim>\<open>s.partition(sep)[-1]\<close> for a one-character separator: what follows the first
  separator, or the empty string when there is none.\<close>

fun partition_last :: "char \<Rightarrow> string \<Rightarrow> string" where
  "partition_last sep [] = []"
| "partition_last sep (c # cs) = (if c = sep then cs else partition_last sep cs)"

definition is_digit :: "char \<Rightarrow> bool" where
  "is_digit c \<longleftrightarrow> c \<in> set ''0123456789''"

text \<open>The value of a decimal digit is its position among the ten digits.\<close>

definition digit_val :: "char \<Rightarrow> int" where
  "digit_val c = int (length (takeWhile (\<lambda>d. d \<noteq> c) ''0123456789''))"

text \<open>The value of a run of decimal digits, most significant first.\<close>

definition dec_value :: "string \<Rightarrow> int" where
  "dec_value ds = foldl (\<lambda>a c. a * 10 + digit_val c) 0 ds"

text \<open>
  \<^verbatim>\<open>int(s)\<close> on a string: surrounding whitespace is ignored, one sign is allowed,
  at least one decimal digit must follow and nothing else; anything else raises
  \<^verbatim>\<open>ValueError\<close> (\<open>None\<close> here, turned into the error by the caller).
\<close>

definition py_int :: "string \<Rightarrow> int option" where
  "py_int s =
     (case strip s of
        [] \<Rightarrow> None
      | c # cs \<Rightarrow>
          if c = CHR ''-'' then
            (if cs \<noteq> [] \<and> list_all is_digit cs then Some (- dec_value cs) else None)
          else if c = CHR ''+'' then
            (if cs \<noteq> [] \<and> list_all is_digit cs then Some (dec_value cs) else None)
          else if list_all is_digit (c # cs) then Some (dec_value (c # cs))
          else None)"

section \<open>GitRemoteParser\<close>

text \<open>
  The parser object together with the standard input it reads: \<open>peek_stack\<close> and
  \<open>line\<close> are the two attributes of the class, \<open>stdin\<close> is the unread rest of
  \<^verbatim>\<open>sys.stdin\<close>. Calls to \<^verbatim>\<open>log\<close> write to a log only and are left out.
\<close>

record parser =
  peek_stack :: "string list"
  line :: string
  stdin :: string

text \<open>\<^verbatim>\<open>sys.stdin.readline()\<close>: the bytes up to and including the next newline, or
  all that is left when there is none; the empty string at end of input.\<close>

fun readline :: "string \<Rightarrow> string \<times> string" where
  "readline [] = ([], [])"
| "readline (c # cs) =
     (if c = CHR 0x0A then ([c], cs)
      else (case readline cs of (l, r) \<Rightarrow> (c # l, r)))"


text \<open>\<^verbatim>\<open>GitRemoteParser.read_line\<close> (lines 54-61); the pair is the returned line and
  the parser afterwards.\<close>

definition read_line :: "parser \<Rightarrow> string \<times> parser" where
  "read_line p =
     (if peek_stack p \<noteq> [] then
        (hd (peek_stack p), p\<lparr>line := hd (peek_stack p), peek_stack := tl (peek_stack p)\<rparr>)
      else
        (case readline (stdin p) of
           (l, r) \<Rightarrow> (strip l, p\<lparr>line := strip l, stdin := r\<rparr>)))"

text \<open>\<^verbatim>\<open>GitRemoteParser.__init__\<close> (lines 50-52) on a given standard input.\<close>

definition parser_init :: "string \<Rightarrow> parser" where
  "parser_init inp = snd (read_line \<lparr>peek_stack = [], line = [], stdin = inp\<rparr>)"

text \<open>\<^verbatim>\<open>GitRemoteParser.peek\<close> (lines 63-68).\<close>

definition peek :: "parser \<Rightarrow> string \<times> parser" where
  "peek p =
     (case readline (stdin p) of
        (l, r) \<Rightarrow> (strip l, p\<lparr>peek_stack := peek_stack p @ [strip l], stdin := r\<rparr>))"

text \<open>\<^verbatim>\<open>GitRemoteParser.read_mark\<close> (lines 70-73).\<close>

definition read_mark :: "parser \<Rightarrow> py_error + (int \<times> parser)" where
  "read_mark p =
     (case read_line p of
        (l, p1) \<Rightarrow>
          (case py_int (partition_last (CHR '':'') l) of
             None \<Rightarrow> Inl ValueError
           | Some n \<Rightarrow> Inr (n, p1)))"


text \<open>
  The regular expression of \<^verbatim>\<open>read_author\<close> (line 87), matched at the start of the
  line as \<^verbatim>\<open>re.match\<close> does:
  \<^verbatim>\<open>^(?:author|committer|tagger)(?: ([^<>]+)?)? <([^<>]*)> (\d+) ([+-]\d+)\<close>.
  Every part of it is forced by the text, so that backtracking finds at most one match:
  what stands between the keyword and the first angle bracket is a blank, an optional
  user name and a blank; the e-mail runs to the next angle bracket; the runs of digits are
  maximal.
\<close>

fun strip_prefix :: "string \<Rightarrow> string \<Rightarrow> string option" where
  "strip_prefix [] s = Some s"
| "strip_prefix (c # cs) [] = None"
| "strip_prefix (c # cs) (x # xs) = (if c = x then strip_prefix cs xs else None)"

text \<open>\<^verbatim>\<open>(?:author|committer|tagger)\<close>: what follows the keyword.\<close>

definition author_keyword :: "string \<Rightarrow> string option" where
  "author_keyword l =
     (case strip_prefix ''author'' l of
        Some r \<Rightarrow> Some r
      | None \<Rightarrow>
          (case strip_prefix ''committer'' l of
             Some r \<Rightarrow> Some r
           | None \<Rightarrow> strip_prefix ''tagger'' l))"

text \<open>\<^verbatim>\<open>[^<>]\<close>\<close>

definition not_angle :: "char \<Rightarrow> bool" where
  "not_angle c \<longleftrightarrow> c \<noteq> CHR ''<'' \<and> c \<noteq> CHR ''>''"

text \<open>
  \<^verbatim>\<open>(?: ([^<>]+)?)? \<close> on the text \<open>pre\<close> before the first angle bracket (the last
  blank is the one of \<^verbatim>\<open> <\<close>): one blank is the group left out, two blanks are the
  group without a user, and a longer text is a blank, the user and a blank. The outer
  \<open>None\<close> is no match, the inner one the group \<^verbatim>\<open>user\<close> being \<^verbatim>\<open>None\<close>.
\<close>

definition author_user :: "string \<Rightarrow> string option option" where
  "author_user pre =
     (if pre = '' '' \<or> pre = ''  '' then Some None
      else if 3 \<le> length pre \<and> hd pre = CHR '' '' \<and> last pre = CHR '' ''
        then Some (Some (butlast (tl pre)))
      else None)"

text \<open>The groups \<^verbatim>\<open>(user, email, date, tz)\<close> of a match.\<close>

definition author_re_match :: "string \<Rightarrow> (string option \<times> string \<times> string \<times> string) option" where
  "author_re_match l =
     (case author_keyword l of
        None \<Rightarrow> None
      | Some s \<Rightarrow>
          (case dropWhile not_angle s of
             [] \<Rightarrow> None
           | c # s2 \<Rightarrow>
               if c \<noteq> CHR ''<'' then None
               else
                 (case author_user (takeWhile not_angle s) of
                    None \<Rightarrow> None
                  | Some user \<Rightarrow>
                      (case strip_prefix ''> '' (dropWhile not_angle s2) of
                         None \<Rightarrow> None
                       | Some s3 \<Rightarrow>
                           if takeWhile is_digit s3 = [] then None
                           else
                             (case dropWhile is_digit s3 of
                                sp # sg # s4 \<Rightarrow>
                                  if sp = CHR '' '' \<and> (sg = CHR ''+'' \<or> sg = CHR ''-'') \<and>
                                     takeWhile is_digit s4 \<noteq> []
                                  then Some (user, takeWhile not_angle s2, takeWhile is_digit s3,
                                             sg # takeWhile is_digit s4)
                                  else None
                              | _ \<Rightarrow> None)))))"

text \<open>Line 98: \<^verbatim>\<open>tz = -((int(tz) / 100) * 3600) + ((int(tz) % 100) * 60)\<close>, on the
  integer read from the time zone field. The unary minus binds the first product only.\<close>

definition author_tz :: "int \<Rightarrow> int" where
  "author_tz t = (- ((t div 100) * 3600)) + ((t mod 100) * 60)"

text \<open>\<^verbatim>\<open>GitRemoteParser.read_author\<close> (lines 83-99).\<close>

definition read_author :: "parser \<Rightarrow> py_error + ((string \<times> int \<times> int) option \<times> parser)" where
  "read_author p =
     (case read_line p of
        (_, p1) \<Rightarrow>
          (case author_re_match (line p1) of
             None \<Rightarrow> Inr (None, p1)
           | Some (user, email, date, tz) \<Rightarrow>
               (case py_int date of
                  None \<Rightarrow> Inl ValueError
                | Some d \<Rightarrow>
                    (case py_int tz of
                       None \<Rightarrow> Inl ValueError
                     | Some t \<Rightarrow>
                         Inr (Some ((case user of None \<Rightarrow> [] | Some u \<Rightarrow> u) @ '' <'' @ email @ ''>'',
                                    d, author_tz t), p1)))))"

text \<open>
  \<^verbatim>\<open>GitRemoteParser.read_block\<close> (lines 101-107), run to exhaustion with nothing
  done between two yields: the lines yielded, in order, and the parser when the
  generator stops. The loop need not stop (a sentinel that never comes), so the
  result is optional and \<open>None\<close> is a generator that yields forever.
\<close>

partial_function (option) read_block :: "string \<Rightarrow> parser \<Rightarrow> (string list \<times> parser) option" where
  "read_block sentinel p =
     (if line p \<noteq> sentinel then
        (case read_line p of
           (l, p1) \<Rightarrow>
             Option.bind (read_block sentinel (p1\<lparr>line := l\<rparr>))
               (\<lambda>(ys, q). Some (line p # ys, q)))
      else Some ([], p))"

text \<open>Sequences of calls used to state what callers observe.\<close>

datatype call = Peek | ReadLine

text \<open>The lines returned by the \<^verbatim>\<open>read_line\<close> calls of a sequence of calls.\<close>

fun run_calls :: "call list \<Rightarrow> parser \<Rightarrow> string list \<times> parser" where
  "run_calls [] p = ([], p)"
| "run_calls (Peek # cs) p = run_calls cs (snd (peek p))"
| "run_calls (ReadLine # cs) p =
     (case read_line p of
        (l, p1) \<Rightarrow> (case run_calls cs p1 of (ls, p2) \<Rightarrow> (l # ls, p2)))"

text \<open>\<open>n\<close> calls of \<^verbatim>\<open>read_line\<close> in a row, and \<open>k\<close> calls of \<^verbatim>\<open>peek\<close> in a row,
  with the lines they return.\<close>

fun read_lines :: "nat \<Rightarrow> parser \<Rightarrow> string list \<times> parser" where
  "read_lines 0 p = ([], p)"
| "read_lines (Suc n) p =
     (case read_line p of
        (l, p1) \<Rightarrow> (case read_lines n p1 of (ls, p2) \<Rightarrow> (l # ls, p2)))"

fun peeks :: "nat \<Rightarrow> parser \<Rightarrow> string list \<times> parser" where
  "peeks 0 p = ([], p)"
| "peeks (Suc k) p =
     (case peek p of
        (l, p1) \<Rightarrow> (case peeks k p1 of (ls, p2) \<Rightarrow> (l # ls, p2)))"

text \<open>The first \<open>n\<close> lines of an input as \<^verbatim>\<open>readline().strip()\<close> delivers them.\<close>

fun stdin_lines :: "nat \<Rightarrow> string \<Rightarrow> string list" where
  "stdin_lines 0 inp = []"
| "stdin_lines (Suc n) inp = (case readline inp of (l, r) \<Rightarrow> strip l # stdin_lines n r)"

text \<open>The next \<open>n\<close> lines a parser has to deliver: the buffered ones first, then the
  input's.\<close>

definition upcoming :: "nat \<Rightarrow> parser \<Rightarrow> string list" where
  "upcoming n p = take n (peek_stack p @ stdin_lines n (stdin p))"

section \<open>HGRemote\<close>

text \<open>
  Modelled from the spec: \<^verbatim>\<open>util.output\<close> is not among the sources. The spec has each
  command emit lines on the standard output; one call emits one line, and the call
  without argument the blank line. The standard output is the list of the lines
  written so far.
\<close>

definition "output" :: "string \<Rightarrow> string list \<Rightarrow> string list" where
  "output msg out = out @ [msg]"

text \<open>
  Modelled from the spec: \<^verbatim>\<open>util.hg_to_git_spaces\<close> is not among the sources. The spec
  (section 6) has every space of a name substituted by a placeholder sequence, which it
  does not name: the sequence is the parameter \<open>ph\<close>.
\<close>

definition hg_to_git_spaces :: "string \<Rightarrow> string \<Rightarrow> string" where
  "hg_to_git_spaces ph name = concat (map (\<lambda>c. if c = CHR '' '' then ph else [c]) name)"

text \<open>
  The Mercurial repository, as far as \<^verbatim>\<open>do_list\<close> consults it:
  \<^verbatim>\<open>repo.dirstate.branch()\<close>, \<^verbatim>\<open>readcurrent(repo)\<close>, \<^verbatim>\<open>repo[changeid]\<close> (the
  revision number of the change context, \<open>None\<close> when the lookup raises),
  \<^verbatim>\<open>changeid in repo\<close>, \<^verbatim>\<open>listbookmarks(repo)\<close> (bookmark and node),
  the keys of \<^verbatim>\<open>repo.branchmap()\<close>, \<^verbatim>\<open>repo.branchheads(branch, closed=True)\<close>
  and \<^verbatim>\<open>repo.tagslist()\<close> (tag and node). A change context is false exactly when it is
  the null revision.
\<close>

record hgrepo =
  dirstate_branch :: string
  readcurrent :: "string option"
  getitem :: "string \<Rightarrow> int option"
  contains :: "string \<Rightarrow> bool"
  listbookmarks :: "(string \<times> string) list"
  branchmap :: "string list"
  branchheads :: "string \<Rightarrow> string list"
  tagslist :: "(string \<times> string) list"

definition nullrev :: int where
  "nullrev = - 1"

definition ctx_nonzero :: "int \<Rightarrow> bool" where
  "ctx_nonzero node \<longleftrightarrow> node \<noteq> nullrev"

text \<open>
  The attributes of \<^verbatim>\<open>HGRemote\<close> that the commands read and write.
  \<open>marks_stored\<close> counts the calls of \<^verbatim>\<open>self.marks.store()\<close>. The dictionaries
  \<^verbatim>\<open>self.branches\<close> and \<^verbatim>\<open>self.bookmarks\<close> are lists of key and value with each key
  once. Python leaves the order in which a dictionary is iterated open; here a new key
  goes to the end, and no property below depends on that order.
\<close>

record hgremote =
  prefix :: string
  marks_git_path :: string
  repo :: hgrepo
  branches :: "(string \<times> string list) list"
  bookmarks :: "(string \<times> int) list"
  headnode :: "(string \<times> int) option"
  marks_stored :: nat

text \<open>\<^verbatim>\<open>d[k] = v\<close>\<close>

fun dict_set :: "'k \<Rightarrow> 'v \<Rightarrow> ('k \<times> 'v) list \<Rightarrow> ('k \<times> 'v) list" where
  "dict_set k v [] = [(k, v)]"
| "dict_set k v ((k', v') # d) = (if k' = k then (k, v) # d else (k', v') # dict_set k v d)"

text \<open>\<^verbatim>\<open>HGRemote.do_capabilities\<close> (lines 177-190). \<open>path_exists\<close> is the file system:
  whether a file exists at a path.\<close>

definition do_capabilities :: "(string \<Rightarrow> bool) \<Rightarrow> hgremote \<Rightarrow> string list \<Rightarrow> string list" where
  "do_capabilities path_exists self out0 =
     (let out1 = output ''import'' out0;
          out2 = output ''export'' out1;
          out3 = output (''refspec refs/heads/branches/*:'' @ prefix self @ ''/branches/*'') out2;
          out4 = output (''refspec refs/heads/*:'' @ prefix self @ ''/bookmarks/*'') out3;
          out5 = output (''refspec refs/tags/*:'' @ prefix self @ ''/tags/*'') out4;
          out6 = (if path_exists (marks_git_path self)
                  then output (''*import-marks '' @ marks_git_path self) out5 else out5);
          out7 = output (''*export-marks '' @ marks_git_path self) out6
      in output [] out7)"

text \<open>
  \<^verbatim>\<open>do_list\<close>, lines 196-214: the head and its node. \<open>Inr None\<close> is the early return
  of the empty repository (lines 211-213).
\<close>

definition resolve_head :: "hgrepo \<Rightarrow> py_error + (string \<times> int) option" where
  "resolve_head r =
     (let current_branch = dirstate_branch r;
          head = readcurrent r
      in if (case head of None \<Rightarrow> False | Some h \<Rightarrow> h \<noteq> []) then
           (case getitem r (the head) of
              None \<Rightarrow> Inl RepoLookupError
            | Some node \<Rightarrow> Inr (Some (the head, node)))
         else
           (case getitem r ''.'' of
              None \<Rightarrow> Inl RepoLookupError
            | Some node \<Rightarrow>
                if \<not> ctx_nonzero node then
                  (if contains r ''default'' then
                     (case getitem r ''default'' of
                        None \<Rightarrow> Inl RepoLookupError
                      | Some node' \<Rightarrow>
                          Inr (Some (if current_branch \<noteq> ''default'' then current_branch
                                     else ''master'', node')))
                   else Inr None)
                else
                  Inr (Some (if current_branch \<noteq> ''default'' then current_branch
                             else ''master'', node))))"

text \<open>Lines 220-221: the bookmark references.\<close>

fun update_bookmarks ::
  "hgrepo \<Rightarrow> (string \<times> string) list \<Rightarrow> (string \<times> int) list \<Rightarrow> py_error + (string \<times> int) list" where
  "update_bookmarks r [] bms = Inr bms"
| "update_bookmarks r ((bookmark, node) # rest) bms =
     (case getitem r node of
        None \<Rightarrow> Inl RepoLookupError
      | Some ctx \<Rightarrow> update_bookmarks r rest (dict_set bookmark ctx bms))"

text \<open>Lines 224-227: the named branch references.\<close>

fun update_branches ::
  "hgrepo \<Rightarrow> string list \<Rightarrow> (string \<times> string list) list \<Rightarrow> (string \<times> string list) list" where
  "update_branches r [] brs = brs"
| "update_branches r (branch # rest) brs =
     (let heads = branchheads r branch
      in update_branches r rest (if heads \<noteq> [] then dict_set branch heads brs else brs))"

text \<open>Lines 233-237, 240-242 and 245-247: the three loops that list references.\<close>

fun list_branches :: "string \<Rightarrow> string list \<Rightarrow> string list \<Rightarrow> string list" where
  "list_branches ph [] out = out"
| "list_branches ph (branch # rest) out =
     list_branches ph rest
       (if branch \<noteq> ''default''
        then output (''? refs/heads/branches/'' @ hg_to_git_spaces ph branch) out
        else output ''? refs/heads/master'' out)"

fun list_bookmarks :: "string \<Rightarrow> string list \<Rightarrow> string list \<Rightarrow> string list" where
  "list_bookmarks ph [] out = out"
| "list_bookmarks ph (bookmark # rest) out =
     list_bookmarks ph rest
       (if bookmark \<noteq> ''master''
        then output (''? refs/heads/'' @ hg_to_git_spaces ph bookmark) out
        else out)"

fun list_tags :: "string \<Rightarrow> (string \<times> string) list \<Rightarrow> string list \<Rightarrow> string list" where
  "list_tags ph [] out = out"
| "list_tags ph ((tag, node) # rest) out =
     list_tags ph rest
       (if tag \<noteq> ''tip''
        then output (''? refs/tags/'' @ hg_to_git_spaces ph tag) out
        else out)"

text \<open>\<^verbatim>\<open>HGRemote.do_list\<close> (lines 192-249): the object and the standard output
  afterwards.\<close>

definition do_list :: "string \<Rightarrow> hgremote \<Rightarrow> string list \<Rightarrow> py_error + (hgremote \<times> string list)" where
  "do_list ph self out0 =
     (case resolve_head (repo self) of
        Inl e \<Rightarrow> Inl e
      | Inr None \<Rightarrow> Inr (self, output [] out0)
      | Inr (Some hn) \<Rightarrow>
          (case update_bookmarks (repo self) (listbookmarks (repo self)) (bookmarks self) of
             Inl e \<Rightarrow> Inl e
           | Inr bms \<Rightarrow>
               (let self1 = self\<lparr>headnode := Some hn, bookmarks := bms,
                                 branches := update_branches (repo self) (branchmap (repo self))
                                               (branches self)\<rparr>;
                    out1 = output (''@refs/heads/'' @ fst hn @ '' HEAD'') out0;
                    out2 = list_branches ph (map fst (branches self1)) out1;
                    out3 = list_bookmarks ph (map fst (bookmarks self1)) out2;
                    out4 = list_tags ph (tagslist (repo self)) out3
                in Inr (self1, output [] out4))))"

text \<open>
  The session as the command loop sees it: the object, the parser and the standard
  output. \<^verbatim>\<open>HGImporter\<close> and \<^verbatim>\<open>GitExporter\<close> are not among the sources; what
  \<^verbatim>\<open>do_import\<close> and \<^verbatim>\<open>do_export\<close> (lines 251-255) do to the session is the pair of
  parameters \<open>imp\<close> and \<open>exp\<close>.
\<close>

type_synonym session = "hgremote \<times> parser \<times> string list"

text \<open>\<^verbatim>\<open>getattr(self, name)(parser)\<close> for the methods of the class.\<close>

definition getattr_call ::
  "(string \<Rightarrow> bool) \<Rightarrow> string \<Rightarrow> (session \<Rightarrow> py_error + session) \<Rightarrow> (session \<Rightarrow> py_error + session) \<Rightarrow>
   string \<Rightarrow> session \<Rightarrow> py_error + session" where
  "getattr_call path_exists ph imp exp name w =
     (case w of
        (self, parser, out) \<Rightarrow>
          if name = ''do_capabilities'' then Inr (self, parser, do_capabilities path_exists self out)
          else if name = ''do_list'' then
            (case do_list ph self out of
               Inl e \<Rightarrow> Inl e
             | Inr (self', out') \<Rightarrow> Inr (self', parser, out'))
          else if name = ''do_import'' then imp w
          else if name = ''do_export'' then exp w
          else Inl AttributeError)"

text \<open>\<^verbatim>\<open>line.split()[0]\<close>: the first run of bytes that are not whitespace.\<close>

definition split_first :: "string \<Rightarrow> py_error + string" where
  "split_first l =
     (case dropWhile is_space l of
        [] \<Rightarrow> Inl IndexError
      | c # cs \<Rightarrow> Inr (takeWhile (\<lambda>x. \<not> is_space x) (c # cs)))"

text \<open>
  Modelled from the spec: \<^verbatim>\<open>util.die\<close> is not among the sources. The spec has it fail
  fatally with the message: the error \<open>Die\<close> carrying the message ends the session.
\<close>

definition die :: "string \<Rightarrow> py_error + session" where
  "die msg = Inl (Die msg)"

text \<open>The body of the loop of \<^verbatim>\<open>HGRemote.process\<close> (lines 169-173) on one line.\<close>

definition dispatch ::
  "(string \<Rightarrow> bool) \<Rightarrow> string \<Rightarrow> (session \<Rightarrow> py_error + session) \<Rightarrow> (session \<Rightarrow> py_error + session) \<Rightarrow>
   string \<Rightarrow> session \<Rightarrow> py_error + session" where
  "dispatch path_exists ph imp exp l w =
     (case split_first l of
        Inl e \<Rightarrow> Inl e
      | Inr command \<Rightarrow>
          if command \<notin> set [''capabilities'', ''list'', ''import'', ''export'']
          then die (''unhandled command: '' @ l)
          else getattr_call path_exists ph imp exp (''do_'' @ command) w)"

text \<open>
  The loop of \<^verbatim>\<open>HGRemote.process\<close> (line 168): the generator \<^verbatim>\<open>read_block('')\<close>
  resumed after each command, which may itself have read from the parser. \<open>None\<close> is
  a loop that does not end.
\<close>

partial_function (option) process_loop ::
  "(string \<Rightarrow> bool) \<Rightarrow> string \<Rightarrow> (session \<Rightarrow> py_error + session) \<Rightarrow> (session \<Rightarrow> py_error + session) \<Rightarrow>
   session \<Rightarrow> (py_error + session) option" where
  "process_loop path_exists ph imp exp w =
     (if line (fst (snd w)) \<noteq> [] then
        (case dispatch path_exists ph imp exp (line (fst (snd w))) w of
           Inl e \<Rightarrow> Some (Inl e)
         | Inr (self', parser', out') \<Rightarrow>
             (case read_line parser' of
                (l, p1) \<Rightarrow> process_loop path_exists ph imp exp (self', p1\<lparr>line := l\<rparr>, out')))
      else Some (Inr w))"

text \<open>\<^verbatim>\<open>HGRemote.process\<close> (lines 163-175) on a given standard input.\<close>

definition process ::
  "(string \<Rightarrow> bool) \<Rightarrow> string \<Rightarrow> (session \<Rightarrow> py_error + session) \<Rightarrow> (session \<Rightarrow> py_error + session) \<Rightarrow>
   hgremote \<Rightarrow> string \<Rightarrow> (py_error + session) option" where
  "process path_exists ph imp exp self inp =
     (case process_loop path_exists ph imp exp (self, parser_init inp, []) of
        None \<Rightarrow> None
      | Some (Inl e) \<Rightarrow> Some (Inl e)
      | Some (Inr (self', parser', out')) \<Rightarrow>
          Some (Inr (self'\<lparr>marks_stored := Suc (marks_stored self')\<rparr>, parser', out')))"

section \<open>Example states\<close>

text \<open>A parser reached through the class's own methods with one peeked line still
  buffered: built on the input \<^verbatim>\<open>a b c d\<close> (one per line), two lines are peeked
  and one is read.\<close>

definition lookahead_example :: parser where
  "lookahead_example =
     snd (read_line (snd (peeks 2 (parser_init ''a\<newline>b\<newline>c\<newline>d\<newline>''))))"

text \<open>
  The condition under which \<^verbatim>\<open>do_list\<close> takes its early return (lines 200-213):
  \<^verbatim>\<open>readcurrent\<close> gives no bookmark (\<^verbatim>\<open>None\<close>, or a name that Python takes as
  false), the working copy is at the null revision and \<^verbatim>\<open>'default' in repo\<close> is
  false.
\<close>

definition empty_repository :: "hgrepo \<Rightarrow> bool" where
  "empty_repository r \<longleftrightarrow>
     (case readcurrent r of None \<Rightarrow> True | Some h \<Rightarrow> h = []) \<and>
     (case getitem r ''.'' of None \<Rightarrow> False | Some node \<Rightarrow> \<not> ctx_nonzero node) \<and>
     \<not> contains r ''default''"

text \<open>
  A freshly cloned repository (no working copy, so the current revision is null) with
  two named branches, two bookmarks and two tags; a repository without any revision;
  and a session that has not listed anything yet.
\<close>

definition example_repo :: hgrepo where
  "example_repo =
     \<lparr>dirstate_branch = ''default'',
      readcurrent = None,
      getitem = [''.'' \<mapsto> - 1, ''default'' \<mapsto> 4, ''aa11'' \<mapsto> 2, ''bb22'' \<mapsto> 3],
      contains = (\<lambda>c. c = ''default''),
      listbookmarks = [(''master'', ''aa11''), (''new feature'', ''bb22'')],
      branchmap = [''default'', ''old stable''],
      branchheads = (\<lambda>b. if b = ''default'' then [''cc33''] else [''bb22'']),
      tagslist = [(''v 1.0'', ''aa11''), (''tip'', ''cc33'')]\<rparr>"

definition blank_repo :: hgrepo where
  "blank_repo =
     \<lparr>dirstate_branch = ''default'',
      readcurrent = None,
      getitem = [''.'' \<mapsto> - 1],
      contains = (\<lambda>c. False),
      listbookmarks = [],
      branchmap = [],
      branchheads = (\<lambda>b. []),
      tagslist = [(''tip'', ''0000'')]\<rparr>"

definition example_remote :: hgremote where
  "example_remote =
     \<lparr>prefix = ''refs/hg/origin'',
      marks_git_path = ''.git/hg/0a1b/marks-git'',
      repo = example_repo,
      branches = [],
      bookmarks = [],
      headnode = None,
      marks_stored = 0\<rparr>"

section \<open>Properties of the parser\<close>

subsection \<open>Auxiliary facts\<close>

lemma line_read_line: "line (snd (read_line p)) = fst (read_line p)"
  by (simp add: read_line_def split: prod.splits)

lemma read_line_buffered:
  "peek_stack p = x # xs \<Longrightarrow> read_line p = (x, p\<lparr>line := x, peek_stack := xs\<rparr>)"
  by (simp add: read_line_def)

lemma read_lines_drain:
  "peek_stack p = xs \<Longrightarrow>
   read_lines (length xs) p = (xs, p\<lparr>line := last (line p # xs), peek_stack := []\<rparr>)"
proof (induction xs arbitrary: p)
  case Nil
  then show ?case by simp
next
  case (Cons x xs)
  have "peek_stack (p\<lparr>line := x, peek_stack := xs\<rparr>) = xs" by simp
  from Cons.IH [OF this] Cons.prems show ?case
    by (simp add: read_line_buffered)
qed

lemma read_lines_Suc:
  "read_lines (Suc n) p =
     (fst (read_line p) # fst (read_lines n (snd (read_line p))),
      snd (read_lines n (snd (read_line p))))"
  by (simp split: prod.splits)

lemma peeks_Suc:
  "peeks (Suc k) p =
     (fst (peek p) # fst (peeks k (snd (peek p))), snd (peeks k (snd (peek p))))"
  by (simp split: prod.splits)

lemma run_calls_ReadLine:
  "run_calls (ReadLine # cs) p =
     (fst (read_line p) # fst (run_calls cs (snd (read_line p))),
      snd (run_calls cs (snd (read_line p))))"
  by (simp split: prod.splits)

lemma peeks_length: "length (fst (peeks k p)) = k"
proof (induction k arbitrary: p)
  case 0
  then show ?case by simp
next
  case (Suc k)
  from Suc.IH [of "snd (peek p)"] show ?case by (simp only: peeks_Suc fst_conv length_Cons)
qed

lemma peek_stack_peek: "peek_stack (snd (peek p)) = peek_stack p @ [fst (peek p)]"
  by (simp add: peek_def split: prod.splits)

lemma line_peek: "line (snd (peek p)) = line p"
  by (simp add: peek_def split: prod.splits)

lemma peeks_stack: "peek_stack (snd (peeks k p)) = peek_stack p @ fst (peeks k p)"
proof (induction k arbitrary: p)
  case 0
  then show ?case by simp
next
  case (Suc k)
  obtain l p1 where pk: "peek p = (l, p1)" by (cases "peek p")
  obtain ls p2 where pks: "peeks k p1 = (ls, p2)" by (cases "peeks k p1")
  from Suc.IH [of p1] pks have "peek_stack p2 = peek_stack p1 @ ls" by simp
  moreover from peek_stack_peek [of p] pk have "peek_stack p1 = peek_stack p @ [l]" by simp
  ultimately show ?case using pk pks by simp
qed

lemma peeks_line: "line (snd (peeks k p)) = line p"
proof (induction k arbitrary: p)
  case 0
  then show ?case by simp
next
  case (Suc k)
  obtain l p1 where pk: "peek p = (l, p1)" by (cases "peek p")
  obtain ls p2 where pks: "peeks k p1 = (ls, p2)" by (cases "peeks k p1")
  from Suc.IH [of p1] pks line_peek [of p] pk show ?case by simp
qed

lemma stdin_lines_take: "m \<le> n \<Longrightarrow> take m (stdin_lines n s) = stdin_lines m s"
proof (induction m arbitrary: n s)
  case 0
  then show ?case by simp
next
  case (Suc m)
  then obtain n' where n: "n = Suc n'" by (cases n) auto
  with Suc show ?case by (simp split: prod.splits)
qed

lemma take_append_take: "take n (xs @ take n ys) = take n (xs @ ys)"
  by (simp add: min_def)

lemma upcoming_peek: "upcoming n (snd (peek p)) = upcoming n p"
proof -
  obtain l r where rl: "readline (stdin p) = (l, r)" by (cases "readline (stdin p)")
  have "take n (strip l # stdin_lines n r) = stdin_lines n (stdin p)"
    using stdin_lines_take [of n "Suc n" "stdin p"] rl by simp
  then have "take n (peek_stack p @ strip l # stdin_lines n r) =
      take n (peek_stack p @ stdin_lines n (stdin p))"
    by (metis take_append_take)
  then show ?thesis by (simp add: upcoming_def peek_def rl)
qed

lemma upcoming_read_line:
  "upcoming (Suc n) p = fst (read_line p) # upcoming n (snd (read_line p))"
proof (cases "peek_stack p")
  case Nil
  then show ?thesis
    by (simp add: upcoming_def read_line_def split: prod.splits)
next
  case (Cons x xs)
  obtain l r where rl: "readline (stdin p) = (l, r)" by (cases "readline (stdin p)")
  have "take n (strip l # stdin_lines n r) = stdin_lines n (stdin p)"
    using stdin_lines_take [of n "Suc n" "stdin p"] rl by simp
  then have "take n (xs @ strip l # stdin_lines n r) = take n (xs @ stdin_lines n (stdin p))"
    by (metis take_append_take)
  with Cons rl show ?thesis
    by (simp add: upcoming_def read_line_def)
qed

lemma read_lines_upcoming: "fst (read_lines n p) = upcoming n p"
proof (induction n arbitrary: p)
  case 0
  then show ?case by (simp add: upcoming_def)
next
  case (Suc n)
  from Suc.IH [of "snd (read_line p)"] show ?case
    by (simp only: read_lines_Suc fst_conv upcoming_read_line)
qed

lemma run_calls_upcoming:
  "fst (run_calls cs p) = upcoming (length (filter (\<lambda>c. c = ReadLine) cs)) p"
proof (induction cs arbitrary: p)
  case Nil
  then show ?case by (simp add: upcoming_def)
next
  case (Cons c cs)
  show ?case
  proof (cases c)
    case Peek
    with Cons.IH [of "snd (peek p)"] show ?thesis by (simp add: upcoming_peek)
  next
    case ReadLine
    with Cons.IH [of "snd (read_line p)"] show ?thesis
      by (simp add: run_calls_ReadLine upcoming_read_line del: run_calls.simps)
  qed
qed

lemma read_block_stop: "line p = s \<Longrightarrow> read_block s p = Some ([], p)"
  by (subst read_block.simps) simp

lemma read_block_step:
  "line p \<noteq> s \<Longrightarrow>
   read_block s p =
     Option.bind (read_block s (snd (read_line p))) (\<lambda>(ys, q). Some (line p # ys, q))"
proof -
  assume ne: "line p \<noteq> s"
  obtain l p1 where rl: "read_line p = (l, p1)" by (cases "read_line p")
  with line_read_line [of p] have "p1\<lparr>line := l\<rparr> = p1" by simp
  with ne rl show ?thesis by (subst read_block.simps) simp
qed

lemma readline_shorter: "inp \<noteq> [] \<Longrightarrow> length (snd (readline inp)) < length inp"
proof (induction inp)
  case Nil
  then show ?case by simp
next
  case (Cons c cs)
  then show ?case by (cases cs) (auto split: prod.splits)
qed

lemma strip_Nil: "strip [] = []"
  by (simp add: strip_def)






subsection \<open>Lookahead\<close>

text \<open>
  Claim C8. Peeking never makes \<^verbatim>\<open>read_line\<close> skip a line. For every parser state
  and every sequence of \<^verbatim>\<open>peek\<close> and \<^verbatim>\<open>read_line\<close> calls, the lines returned by
  the \<^verbatim>\<open>read_line\<close> calls are the lines that the same number of \<^verbatim>\<open>read_line\<close>
  calls return with the peeks left out. And a line returned by \<^verbatim>\<open>peek\<close> is returned
  by \<^verbatim>\<open>read_line\<close> as soon as the lines buffered before it have been returned:
  these calls leave the underlying input where the peek left it.
\<close>

theorem peek_never_skips:
  "fst (run_calls cs p) = fst (read_lines (length (filter (\<lambda>c. c = ReadLine) cs)) p) \<and>
   read_lines (Suc (length (peek_stack p))) (snd (peek p)) =
     (peek_stack p @ [fst (peek p)],
      (snd (peek p))\<lparr>line := fst (peek p), peek_stack := []\<rparr>)"
proof
  show "fst (run_calls cs p) = fst (read_lines (length (filter (\<lambda>c. c = ReadLine) cs)) p)"
    by (simp add: run_calls_upcoming read_lines_upcoming)
next
  have "peek_stack (snd (peek p)) = peek_stack p @ [fst (peek p)]" by (rule peek_stack_peek)
  from read_lines_drain [OF this] show "read_lines (Suc (length (peek_stack p))) (snd (peek p)) =
     (peek_stack p @ [fst (peek p)],
      (snd (peek p))\<lparr>line := fst (peek p), peek_stack := []\<rparr>)"
    by simp
qed

text \<open>
  Claim C10, as amended. The lookahead buffer is a first-in first-out queue. When
  \<open>k\<close> consecutive \<^verbatim>\<open>peek\<close> calls return \<open>L1..Lk\<close> while \<open>m\<close> lines peeked
  earlier are still buffered, the next \<open>m + k\<close> calls of \<^verbatim>\<open>read_line\<close> return
  those \<open>m\<close> lines and then \<open>L1..Lk\<close>, in that order; they read nothing from the
  underlying input, and they leave the buffer empty, so that no peeked line is
  returned twice. With an empty buffer (\<open>m = 0\<close>) the next \<open>k\<close> calls return
  \<open>L1..Lk\<close>.
\<close>

theorem peeks_then_read_lines:
  "read_lines (length (peek_stack p) + k) (snd (peeks k p)) =
     (peek_stack p @ fst (peeks k p),
      (snd (peeks k p))\<lparr>line := last (line p # peek_stack p @ fst (peeks k p)), peek_stack := []\<rparr>)"
proof -
  let ?q = "snd (peeks k p)"
  let ?xs = "peek_stack p @ fst (peeks k p)"
  have "peek_stack ?q = ?xs" by (rule peeks_stack)
  from read_lines_drain [OF this] show ?thesis
    by (simp add: peeks_length peeks_line)
qed

text \<open>
  Claim C10 as it was stated fails when a line peeked earlier is still buffered: in
  \<open>lookahead_example\<close> the buffer holds \<^verbatim>\<open>c\<close>; one more \<^verbatim>\<open>peek\<close> returns
  \<^verbatim>\<open>d\<close>, and the next \<^verbatim>\<open>read_line\<close> returns \<^verbatim>\<open>c\<close>, not \<^verbatim>\<open>d\<close>.
\<close>

theorem next_reads_not_the_peeked_counterexample:
  "peek_stack lookahead_example = [''c''] \<and>
   fst (peeks 1 lookahead_example) = [''d''] \<and>
   fst (read_lines 1 (snd (peeks 1 lookahead_example))) = [''c''] \<and>
   fst (read_lines 1 (snd (peeks 1 lookahead_example))) \<noteq> fst (peeks 1 lookahead_example)"
  by code_simp

subsection \<open>Blocks\<close>

text \<open>
  Claim C7. Let the lines the parser delivers be its current line followed by what
  \<^verbatim>\<open>read_line\<close> returns, and let the sentinel \<open>s\<close> occur among them, first after
  \<open>k\<close> reads. Then \<^verbatim>\<open>read_block(s)\<close> stops, it has yielded exactly the lines before
  that occurrence, beginning with the current line and in order, and the parser's
  current line is then the sentinel.
\<close>

theorem read_block_yields_up_to_sentinel:
  "read_lines k p = (ls, q) \<Longrightarrow> last (line p # ls) = s \<Longrightarrow>
   s \<notin> set (butlast (line p # ls)) \<Longrightarrow>
   read_block s p = Some (butlast (line p # ls), q) \<and> line q = s"
proof (induction k arbitrary: p ls)
  case 0
  then show ?case by (simp add: read_block_stop)
next
  case (Suc k)
  let ?p1 = "snd (read_line p)"
  let ?l = "fst (read_line p)"
  obtain ls' where ls': "read_lines k ?p1 = (ls', q)" and ls: "ls = ?l # ls'"
    using Suc.prems(1) by (simp only: read_lines_Suc) (metis prod.collapse prod.inject)
  have l1: "line ?p1 = ?l" by (rule line_read_line)
  from Suc.prems(2) ls l1 have a: "last (line ?p1 # ls') = s" by simp
  from Suc.prems(3) ls l1 have b: "s \<notin> set (butlast (line ?p1 # ls'))" and ne: "line p \<noteq> s"
    by auto
  from Suc.IH [OF ls' a b] have "read_block s ?p1 = Some (butlast (line ?p1 # ls'), q)" and "line q = s"
    by simp_all
  with ne ls l1 show ?case by (simp add: read_block_step)
qed

theorem read_block_yields_up_to_sentinel_witness:
  "read_block [] (parser_init ''capabilities\<newline>list\<newline>\<newline>import x\<newline>'') =
     Some ([''capabilities'', ''list''],
           \<lparr>peek_stack = [], line = [], stdin = ''import x\<newline>''\<rparr>) \<and>
   line \<lparr>peek_stack = [], line = [], stdin = ''import x\<newline>''\<rparr> = []"
proof -
  let ?p = "parser_init ''capabilities\<newline>list\<newline>\<newline>import x\<newline>''"
  let ?q = "\<lparr>peek_stack = [], line = [], stdin = ''import x\<newline>''\<rparr>"
  have p: "?p = \<lparr>peek_stack = [], line = ''capabilities'', stdin = ''list\<newline>\<newline>import x\<newline>''\<rparr>"
    by (simp add: parser_init_def read_line_def strip_def is_space_def)
  have 1: "read_lines (Suc (Suc 0)) ?p = ([''list'', []], ?q)"
    by (simp add: p read_line_def strip_def is_space_def)
  have 2: "last (line ?p # [''list'', []]) = []" by simp
  have 3: "[] \<notin> set (butlast (line ?p # [''list'', []]))" by (simp add: p)
  from read_block_yields_up_to_sentinel [OF 1 2 3] show ?thesis by (simp add: p)
qed

text \<open>
  With the blank line as sentinel, as in the command loop, the generator always stops:
  at the end of the input \<^verbatim>\<open>readline\<close> returns the empty string.
\<close>

theorem read_block_blank_sentinel_returns:
  "\<exists>ys q. read_block [] p = Some (ys, q) \<and> line q = []"
proof (induction "length (peek_stack p) + length (stdin p)" arbitrary: p rule: less_induct)
  case less
  show ?case
  proof (cases "line p = []")
    case True
    then show ?thesis by (simp add: read_block_stop)
  next
    case False
    let ?p1 = "snd (read_line p)"
    have "\<exists>ys q. read_block [] ?p1 = Some (ys, q) \<and> line q = []"
    proof (cases "peek_stack p = [] \<and> stdin p = []")
      case True
      then have "line ?p1 = []" by (simp add: read_line_def strip_Nil)
      then show ?thesis by (simp add: read_block_stop)
    next
      case False
      have "length (peek_stack ?p1) + length (stdin ?p1) < length (peek_stack p) + length (stdin p)"
      proof (cases "peek_stack p")
        case Nil
        with False have "stdin p \<noteq> []" by simp
        from readline_shorter [OF this] Nil show ?thesis
          by (cases "readline (stdin p)") (simp add: read_line_def)
      next
        case (Cons x xs)
        then show ?thesis by (simp add: read_line_def)
      qed
      from less [OF this] show ?thesis .
    qed
    then obtain ys q where "read_block [] ?p1 = Some (ys, q)" "line q = []" by blast
    with False show ?thesis by (simp add: read_block_step)
  qed
qed

subsection \<open>Data blocks\<close>




subsection \<open>Author lines\<close>

text \<open>
  Claim C1 says that \<^verbatim>\<open>read_author\<close> returns the negated sum of the hours and the
  minutes of the time zone field, in seconds. The code negates the hours only and
  adds the minutes: for \<^verbatim>\<open>+0530\<close> it returns \<open>-16200\<close> where the claim has
  \<open>-19800\<close>, and for \<^verbatim>\<open>-0530\<close>, where floor division and the remainder give
  \<open>-6\<close> and \<open>70\<close>, it returns \<open>25800\<close> where the claim has \<open>19800\<close>.
\<close>

theorem read_author_half_hour_offsets:
  "read_author \<lparr>peek_stack = [], line = [],
       stdin = ''author A U Thor <author@example.com> 1360000000 +0530\<newline>''\<rparr> =
     Inr (Some (''A U Thor <author@example.com>'', 1360000000, - 16200),
          \<lparr>peek_stack = [], line = ''author A U Thor <author@example.com> 1360000000 +0530'',
           stdin = []\<rparr>) \<and>
   read_author \<lparr>peek_stack = [], line = [],
       stdin = ''committer <author@example.com> 1360000000 -0530\<newline>''\<rparr> =
     Inr (Some ('' <author@example.com>'', 1360000000, 25800),
          \<lparr>peek_stack = [], line = ''committer <author@example.com> 1360000000 -0530'',
           stdin = []\<rparr>) \<and>
   (- 16200 :: int) \<noteq> - ((5 * 3600) + (30 * 60)) \<and>
   (25800 :: int) \<noteq> (5 * 3600) + (30 * 60)"
  by code_simp

text \<open>
  What line 98 computes. For a field of whole hours the offset is the negated field
  in seconds, as claim C1 has it; in general the minutes are added to the negated
  hours, where hours and minutes are the quotient and the remainder of the signed
  field by 100.
\<close>

theorem author_tz_whole_hours: "author_tz (h * 100) = - (h * 3600)"
  by (simp add: author_tz_def)

theorem author_tz_hours_minutes:
  "0 \<le> m \<Longrightarrow> m < 100 \<Longrightarrow> author_tz (h * 100 + m) = - (h * 3600) + m * 60"
  by (simp add: author_tz_def)

theorem author_tz_hours_minutes_witness:
  "(0::int) \<le> 30 \<and> (30::int) < 100 \<and> author_tz (5 * 100 + 30) = - (5 * 3600) + 30 * 60"
  using author_tz_hours_minutes [of 30 5] by simp

section \<open>Properties of the session\<close>

subsection \<open>Auxiliary facts about the list command\<close>

lemma output_append: "output msg out = out @ [msg]"
  by (simp add: output_def)

lemma list_branches_map:
  "list_branches ph bs out =
     out @ map (\<lambda>b. if b \<noteq> ''default'' then ''? refs/heads/branches/'' @ hg_to_git_spaces ph b
                     else ''? refs/heads/master'') bs"
  by (induction bs arbitrary: out) (simp_all add: output_def)

lemma list_bookmarks_map:
  "list_bookmarks ph bs out =
     out @ map (\<lambda>b. ''? refs/heads/'' @ hg_to_git_spaces ph b) (filter (\<lambda>b. b \<noteq> ''master'') bs)"
  by (induction bs arbitrary: out) (simp_all add: output_def)

lemma list_tags_map:
  "list_tags ph ts out =
     out @ map (\<lambda>t. ''? refs/tags/'' @ hg_to_git_spaces ph t)
             (filter (\<lambda>t. t \<noteq> ''tip'') (map fst ts))"
  by (induction ts arbitrary: out) (auto simp: output_def)

lemma dict_set_keys: "fst ` set (dict_set k v d) = insert k (fst ` set d)"
proof (induction d)
  case Nil
  then show ?case by simp
next
  case (Cons x d)
  obtain k' v' where x: "x = (k', v')" by (cases x)
  show ?case using Cons.IH by (simp add: x insert_commute)
qed

lemma update_bookmarks_keys:
  "update_bookmarks r bl bms = Inr bms' \<Longrightarrow>
   fst ` set bms' = fst ` set bms \<union> fst ` set bl"
proof (induction bl arbitrary: bms)
  case Nil
  then show ?case by simp
next
  case (Cons x bl)
  obtain b n where x: "x = (b, n)" by (cases x)
  from Cons.prems x obtain ctx where g: "getitem r n = Some ctx"
    and u: "update_bookmarks r bl (dict_set b ctx bms) = Inr bms'"
    by (auto split: option.splits)
  from Cons.IH [OF u] show ?case by (simp add: x dict_set_keys)
qed

lemma update_branches_keys:
  "fst ` set (update_branches r bs brs) =
     fst ` set brs \<union> {b \<in> set bs. branchheads r b \<noteq> []}"
proof (induction bs arbitrary: brs)
  case Nil
  then show ?case by simp
next
  case (Cons b bs)
  have "{x \<in> set (b # bs). branchheads r x \<noteq> []} =
      (if branchheads r b \<noteq> [] then {b} else {}) \<union> {x \<in> set bs. branchheads r x \<noteq> []}"
    by auto
  then show ?case by (simp add: Cons.IH Let_def dict_set_keys del: set_simps) 
qed

text \<open>The shape of every answer of \<^verbatim>\<open>do_list\<close> that is not the early return.\<close>

lemma do_list_response:
  assumes "do_list ph self [] = Inr (self', out)" and "resolve_head (repo self) \<noteq> Inr None"
  shows "\<exists>hn. headnode self' = Some hn \<and> resolve_head (repo self) = Inr (Some hn) \<and>
     update_bookmarks (repo self) (listbookmarks (repo self)) (bookmarks self) = Inr (bookmarks self') \<and>
     branches self' = update_branches (repo self) (branchmap (repo self)) (branches self) \<and>
     out = (''@refs/heads/'' @ fst hn @ '' HEAD'') #
       map (\<lambda>b. if b \<noteq> ''default'' then ''? refs/heads/branches/'' @ hg_to_git_spaces ph b
                 else ''? refs/heads/master'') (map fst (branches self')) @
       map (\<lambda>b. ''? refs/heads/'' @ hg_to_git_spaces ph b)
         (filter (\<lambda>b. b \<noteq> ''master'') (map fst (bookmarks self'))) @
       map (\<lambda>t. ''? refs/tags/'' @ hg_to_git_spaces ph t)
         (filter (\<lambda>t. t \<noteq> ''tip'') (map fst (tagslist (repo self)))) @
       [[]]"
proof -
  from assms obtain hn where rh: "resolve_head (repo self) = Inr (Some hn)"
    by (cases "resolve_head (repo self)") (auto simp: do_list_def split: option.splits)
  from assms(1) rh obtain bms where
    ub: "update_bookmarks (repo self) (listbookmarks (repo self)) (bookmarks self) = Inr bms"
    by (cases "update_bookmarks (repo self) (listbookmarks (repo self)) (bookmarks self)")
       (auto simp: do_list_def)
  from assms(1) rh ub have
    s: "self' = self\<lparr>headnode := Some hn, bookmarks := bms,
           branches := update_branches (repo self) (branchmap (repo self)) (branches self)\<rparr>"
    and o: "out = output []
        (list_tags ph (tagslist (repo self))
          (list_bookmarks ph (map fst bms)
            (list_branches ph
              (map fst (update_branches (repo self) (branchmap (repo self)) (branches self)))
              (output (''@refs/heads/'' @ fst hn @ '' HEAD'') []))))"
    by (simp_all add: do_list_def Let_def)
  show ?thesis
    apply (rule exI [of _ hn])
    apply (simp only: s o rh ub list_tags_map list_bookmarks_map list_branches_map output_append)
    apply simp
    done
qed

lemma resolve_head_empty:
  "empty_repository r \<Longrightarrow> resolve_head r = Inr None"
  by (auto simp: empty_repository_def resolve_head_def split: option.splits)

lemma resolve_head_not_empty:
  "\<not> empty_repository r \<Longrightarrow> resolve_head r \<noteq> Inr None"
  by (auto simp: empty_repository_def resolve_head_def Let_def split: option.splits if_splits)

lemma hg_to_git_spaces_no_space:
  "CHR '' '' \<notin> set name \<Longrightarrow> hg_to_git_spaces ph name = name"
  by (induction name) (auto simp: hg_to_git_spaces_def)

lemma hg_to_git_spaces_with_space:
  "CHR '' '' \<in> set name \<Longrightarrow> set ph \<subseteq> set (hg_to_git_spaces ph name)"
  by (induction name) (auto simp: hg_to_git_spaces_def)

lemma hg_to_git_spaces_neq:
  assumes "c \<in> set ph" and "c \<notin> set lit" and "name \<noteq> lit"
  shows "hg_to_git_spaces ph name \<noteq> lit"
proof (cases "CHR '' '' \<in> set name")
  case True
  from hg_to_git_spaces_with_space [OF this, of ph] assms(1)
  have "c \<in> set (hg_to_git_spaces ph name)" by blast
  with assms(2) show ?thesis by metis
next
  case False
  with assms(3) show ?thesis by (simp add: hg_to_git_spaces_no_space)
qed

lemma resolve_head_master:
  assumes "readcurrent r = None" and "dirstate_branch r = ''default''"
    and "resolve_head r = Inr (Some hn)"
  shows "fst hn = ''master''"
proof -
  from assms(3) show ?thesis
    unfolding resolve_head_def Let_def assms(1,2)
    by (simp split: option.splits if_splits) auto
qed


lemma do_list_sections:
  assumes "do_list ph self [] = Inr (self', out)" and "resolve_head (repo self) = Inr (Some hn)"
  shows "out = (''@refs/heads/'' @ fst hn @ '' HEAD'') #
       list_branches ph (map fst (branches self')) [] @
       list_bookmarks ph (map fst (bookmarks self')) [] @
       list_tags ph (tagslist (repo self)) [] @ [[]]"
proof -
  from assms(2) have ne: "resolve_head (repo self) \<noteq> Inr None" by simp
  from do_list_response [OF assms(1) ne] obtain hn' where
    h: "resolve_head (repo self) = Inr (Some hn')"
    and o: "out = (''@refs/heads/'' @ fst hn' @ '' HEAD'') #
       map (\<lambda>b. if b \<noteq> ''default'' then ''? refs/heads/branches/'' @ hg_to_git_spaces ph b
                 else ''? refs/heads/master'') (map fst (branches self')) @
       map (\<lambda>b. ''? refs/heads/'' @ hg_to_git_spaces ph b)
         (filter (\<lambda>b. b \<noteq> ''master'') (map fst (bookmarks self'))) @
       map (\<lambda>t. ''? refs/tags/'' @ hg_to_git_spaces ph t)
         (filter (\<lambda>t. t \<noteq> ''tip'') (map fst (tagslist (repo self)))) @
       [[]]"
    by blast
  from h assms(2) have e: "hn' = hn" by simp
  show ?thesis unfolding o e
    by (simp only: list_branches_map list_bookmarks_map list_tags_map append_Nil)
qed

lemma example_do_list:
  "do_list ''___'' example_remote [] =
     Inr (example_remote\<lparr>headnode := Some (''master'', 4),
            bookmarks := [(''master'', 2), (''new feature'', 3)],
            branches := [(''default'', [''cc33'']), (''old stable'', [''bb22''])]\<rparr>,
          [''@refs/heads/master HEAD'', ''? refs/heads/master'',
           ''? refs/heads/branches/old___stable'', ''? refs/heads/new___feature'',
           ''? refs/tags/v___1.0'', []])"
  by (simp add: do_list_def resolve_head_def example_remote_def example_repo_def Let_def
      ctx_nonzero_def nullrev_def output_def hg_to_git_spaces_def)


lemma mem_list_branches:
  "x \<in> set (list_branches ph bs []) \<longleftrightarrow>
     (\<exists>b \<in> set bs. x = (if b \<noteq> ''default'' then ''? refs/heads/branches/'' @ hg_to_git_spaces ph b
                          else ''? refs/heads/master''))"
  by (auto simp: list_branches_map)

lemma mem_list_bookmarks:
  "x \<in> set (list_bookmarks ph bs []) \<longleftrightarrow>
     (\<exists>b \<in> set bs. b \<noteq> ''master'' \<and> x = ''? refs/heads/'' @ hg_to_git_spaces ph b)"
  by (auto simp: list_bookmarks_map)

lemma mem_list_tags:
  "x \<in> set (list_tags ph ts []) \<longleftrightarrow>
     (\<exists>t \<in> set ts. fst t \<noteq> ''tip'' \<and> x = ''? refs/tags/'' @ hg_to_git_spaces ph (fst t))"
  by (auto simp: list_tags_map)


lemma branch_line_default:
  "''default'' \<in> set bs \<Longrightarrow> ''? refs/heads/master'' \<in> set (list_branches ph bs [])"
  unfolding mem_list_branches by (intro bexI [of _ "''default''"]) simp_all

lemma no_branch_line_default:
  assumes "\<exists>c \<in> set ph. c \<notin> set ''default''"
  shows "''? refs/heads/branches/default'' \<notin> set (list_branches ph bs [])"
proof -
  from assms obtain c where c: "c \<in> set ph" "c \<notin> set ''default''" by blast
  have "''? refs/heads/branches/default'' \<noteq>
      (if b \<noteq> ''default'' then ''? refs/heads/branches/'' @ hg_to_git_spaces ph b
       else ''? refs/heads/master'')" for b
  proof (cases "b = ''default''")
    case True
    then show ?thesis by simp
  next
    case False
    from hg_to_git_spaces_neq [OF c this] have "''default'' \<noteq> hg_to_git_spaces ph b"
      by (rule not_sym)
    with False show ?thesis by simp
  qed
  then show ?thesis unfolding mem_list_branches by blast
qed

lemma no_bookmark_line_master:
  assumes "\<exists>c \<in> set ph. c \<notin> set ''master''"
  shows "''? refs/heads/master'' \<notin> set (list_bookmarks ph bs [])"
proof -
  from assms obtain c where c: "c \<in> set ph" "c \<notin> set ''master''" by blast
  have "''? refs/heads/master'' \<noteq> ''? refs/heads/'' @ hg_to_git_spaces ph b"
    if "b \<noteq> ''master''" for b
  proof -
    from hg_to_git_spaces_neq [OF c that] have "''master'' \<noteq> hg_to_git_spaces ph b"
      by (rule not_sym)
    then show ?thesis by simp
  qed
  then show ?thesis unfolding mem_list_bookmarks by blast
qed

lemma no_tag_line_tip:
  assumes "\<exists>c \<in> set ph. c \<notin> set ''tip''"
  shows "''? refs/tags/tip'' \<notin> set (list_tags ph ts [])"
proof -
  from assms obtain c where c: "c \<in> set ph" "c \<notin> set ''tip''" by blast
  have "''? refs/tags/tip'' \<noteq> ''? refs/tags/'' @ hg_to_git_spaces ph t"
    if "t \<noteq> ''tip''" for t
  proof -
    from hg_to_git_spaces_neq [OF c that] have "''tip'' \<noteq> hg_to_git_spaces ph t"
      by (rule not_sym)
    then show ?thesis by simp
  qed
  then show ?thesis unfolding mem_list_tags by blast
qed

lemma head_line_not_listed:
  "''@refs/heads/default HEAD'' \<notin> set (list_branches ph bs []) \<and>
   ''@refs/heads/default HEAD'' \<notin> set (list_bookmarks ph ks []) \<and>
   ''@refs/heads/default HEAD'' \<notin> set (list_tags ph ts [])"
  unfolding mem_list_branches mem_list_bookmarks mem_list_tags by simp


lemma do_list_resolved:
  assumes "do_list ph self [] = Inr (self', out)" and "\<not> empty_repository (repo self)"
  obtains hn where "resolve_head (repo self) = Inr (Some hn)"
    and "branches self' = update_branches (repo self) (branchmap (repo self)) (branches self)"
    and "update_bookmarks (repo self) (listbookmarks (repo self)) (bookmarks self) =
           Inr (bookmarks self')"
proof -
  from assms(2) have ne: "resolve_head (repo self) \<noteq> Inr None" by (rule resolve_head_not_empty)
  from do_list_response [OF assms(1) ne] that show ?thesis by blast
qed

lemma example_not_empty: "\<not> empty_repository (repo example_remote)"
  by (simp add: empty_repository_def example_remote_def example_repo_def)

lemma do_list_prior:
  "do_list ph self out0 =
     (case do_list ph self [] of
        Inl e \<Rightarrow> Inl e
      | Inr (s, lines) \<Rightarrow> Inr (s, out0 @ lines))"
proof (cases "resolve_head (repo self)")
  case (Inl e)
  then show ?thesis by (simp add: do_list_def)
next
  case (Inr h)
  show ?thesis
  proof (cases h)
    case None
    with Inr show ?thesis by (simp add: do_list_def output_def)
  next
    case (Some hn)
    show ?thesis
    proof (cases "update_bookmarks (repo self) (listbookmarks (repo self)) (bookmarks self)")
      case (Inl e)
      with Inr Some show ?thesis by (simp add: do_list_def)
    next
      case bms: (Inr bms)
      have "list_tags ph ts (list_bookmarks ph ks (list_branches ph bs (out0 @ [x]))) =
          out0 @ list_tags ph ts (list_bookmarks ph ks (list_branches ph bs [x]))" for ts ks bs x
        by (simp only: list_tags_map list_bookmarks_map list_branches_map append_assoc)
      with Inr Some bms show ?thesis
        by (simp add: do_list_def Let_def output_def)
    qed
  qed
qed

lemma do_list_prior_Inr:
  assumes "do_list ph self out0 = Inr (self', out)"
  obtains lines where "out = out0 @ lines" and "do_list ph self [] = Inr (self', lines)"
proof (cases "do_list ph self []")
  case (Inl e)
  with assms do_list_prior [of ph self out0] show ?thesis by simp
next
  case (Inr x)
  obtain s lines where x: "x = (s, lines)" by (cases x)
  with Inr assms do_list_prior [of ph self out0] have "self' = s" "out = out0 @ lines" by simp_all
  with Inr x that show ?thesis by simp
qed

lemma example_do_list_prior:
  "do_list ''___'' example_remote out0 =
     Inr (example_remote\<lparr>headnode := Some (''master'', 4),
            bookmarks := [(''master'', 2), (''new feature'', 3)],
            branches := [(''default'', [''cc33'']), (''old stable'', [''bb22''])]\<rparr>,
          out0 @ [''@refs/heads/master HEAD'', ''? refs/heads/master'',
           ''? refs/heads/branches/old___stable'', ''? refs/heads/new___feature'',
           ''? refs/tags/v___1.0'', []])"
  by (simp only: do_list_prior [of "''___''" example_remote out0] example_do_list sum.case prod.case)

lemma length_list_bookmarks:
  "length (list_bookmarks ph bs []) = length (filter (\<lambda>b. b \<noteq> ''master'') bs)"
  by (simp add: list_bookmarks_map)

lemma length_list_tags:
  "length (list_tags ph ts []) = length (filter (\<lambda>t. fst t \<noteq> ''tip'') ts)"
  by (simp add: list_tags_map filter_map comp_def)

subsection \<open>Auxiliary facts about the command loop\<close>

lemma process_loop_step:
  assumes ne: "line (fst (snd w)) \<noteq> []"
  shows "process_loop pe ph imp exp w =
     (case dispatch pe ph imp exp (line (fst (snd w))) w of
        Inl e \<Rightarrow> Some (Inl e)
      | Inr (self', parser', out') \<Rightarrow>
          process_loop pe ph imp exp (self', snd (read_line parser'), out'))"
proof (cases "dispatch pe ph imp exp (line (fst (snd w))) w")
  case (Inl e)
  with ne show ?thesis by (subst process_loop.simps) simp
next
  case (Inr x)
  obtain self' parser' out' where x: "x = (self', parser', out')" by (cases x)
  obtain l p1 where rl: "read_line parser' = (l, p1)" by (cases "read_line parser'")
  with line_read_line [of parser'] have "p1\<lparr>line := l\<rparr> = p1" by simp
  with ne Inr x rl show ?thesis by (subst process_loop.simps) simp
qed

lemma split_first_nonempty: "split_first l = Inr c \<Longrightarrow> l \<noteq> []"
  by (auto simp: split_first_def)

subsection \<open>The capabilities command\<close>

text \<open>
  Claim C2. For every session, every state of the file system and whatever has been
  written to the standard output before, the capabilities command adds to the output
  \<^verbatim>\<open>import\<close>, \<^verbatim>\<open>export\<close>, the three \<^verbatim>\<open>refspec\<close> lines for branches, bookmarks
  and tags, the line \<^verbatim>\<open>*import-marks\<close> with the path when a file exists at the path
  of the marks, the line \<^verbatim>\<open>*export-marks\<close> with the path, and a blank line, in this
  order; and the \<^verbatim>\<open>*import-marks\<close> line is among the lines added if and only if the
  file exists.
\<close>

theorem do_capabilities_lines:
  "do_capabilities path_exists self out0 =
     out0 @
     [''import'', ''export'',
      ''refspec refs/heads/branches/*:'' @ prefix self @ ''/branches/*'',
      ''refspec refs/heads/*:'' @ prefix self @ ''/bookmarks/*'',
      ''refspec refs/tags/*:'' @ prefix self @ ''/tags/*''] @
     (if path_exists (marks_git_path self) then [''*import-marks '' @ marks_git_path self] else []) @
     [''*export-marks '' @ marks_git_path self, []] \<and>
   (''*import-marks '' @ marks_git_path self
      \<in> set (drop (length out0) (do_capabilities path_exists self out0)) \<longleftrightarrow>
      path_exists (marks_git_path self))"
  by (simp add: do_capabilities_def output_def)

subsection \<open>The list command\<close>

text \<open>
  Claim C3. If the repository has no revisions at all (no current bookmark, the
  working copy at the null revision and no \<^verbatim>\<open>default\<close> in the repository), the list
  command adds one blank line to the standard output, whatever has been written
  before, and nothing else: no \<^verbatim>\<open>@\<close> line for the head and no \<^verbatim>\<open>?\<close> line; the
  session is left as it was.
\<close>

theorem do_list_empty_repository:
  "empty_repository (repo self) \<Longrightarrow> do_list ph self out0 = Inr (self, out0 @ [[]])"
  by (simp add: do_list_def resolve_head_empty output_def)

theorem do_list_empty_repository_witness:
  "empty_repository blank_repo \<and>
   do_list ''___'' (example_remote\<lparr>repo := blank_repo\<rparr>)
       [''*export-marks .git/hg/0a1b/marks-git'', []] =
     Inr (example_remote\<lparr>repo := blank_repo\<rparr>,
          [''*export-marks .git/hg/0a1b/marks-git'', [], []])"
proof -
  have e: "empty_repository (repo (example_remote\<lparr>repo := blank_repo\<rparr>))"
    by (simp add: empty_repository_def blank_repo_def ctx_nonzero_def nullrev_def)
  from do_list_empty_repository
    [OF e, of "''___''" "[''*export-marks .git/hg/0a1b/marks-git'', []]"] e
  show ?thesis by simp
qed

text \<open>
  Claim C4. On a repository that is not empty, whose current branch is \<^verbatim>\<open>default\<close>
  and which has no current bookmark, the list command publishes \<^verbatim>\<open>master\<close>, not
  \<^verbatim>\<open>default\<close>, whatever has been written to the standard output before: the first
  line it adds is \<^verbatim>\<open>@refs/heads/master HEAD\<close> and no line it adds is
  \<^verbatim>\<open>@refs/heads/default HEAD\<close>; the lines of the named branches follow the head
  line, and among them the named branch \<^verbatim>\<open>default\<close> (when it has heads) has the line
  \<^verbatim>\<open>? refs/heads/master\<close> and no \<^verbatim>\<open>? refs/heads/branches/default\<close> line. That
  no other branch name is escaped to \<^verbatim>\<open>default\<close> needs a placeholder with a byte
  that \<^verbatim>\<open>default\<close> does not have.
\<close>

theorem do_list_default_is_master:
  assumes "readcurrent (repo self) = None"
    and "dirstate_branch (repo self) = ''default''"
    and "\<not> empty_repository (repo self)"
    and "do_list ph self out0 = Inr (self', out)"
  shows "(\<exists>rest. out = out0 @ ''@refs/heads/master HEAD'' #
        list_branches ph (map fst (branches self')) [] @ rest) \<and>
    hd (drop (length out0) out) = ''@refs/heads/master HEAD'' \<and>
    ''@refs/heads/default HEAD'' \<notin> set (drop (length out0) out) \<and>
    (''default'' \<in> set (branchmap (repo self)) \<and> branchheads (repo self) ''default'' \<noteq> [] \<longrightarrow>
       ''? refs/heads/master'' \<in> set (list_branches ph (map fst (branches self')) [])) \<and>
    ((\<exists>c \<in> set ph. c \<notin> set ''default'') \<longrightarrow>
       ''? refs/heads/branches/default'' \<notin> set (list_branches ph (map fst (branches self')) []))"
proof -
  from do_list_prior_Inr [OF assms(4)] obtain lines where
    o: "out = out0 @ lines" and dl: "do_list ph self [] = Inr (self', lines)"
    by blast
  from do_list_resolved [OF dl assms(3)] obtain hn where
    rh: "resolve_head (repo self) = Inr (Some hn)"
    and br: "branches self' = update_branches (repo self) (branchmap (repo self)) (branches self)"
    by blast
  have hn: "fst hn = ''master''" by (rule resolve_head_master [OF assms(1,2) rh])
  let ?B = "list_branches ph (map fst (branches self')) []"
  let ?K = "list_bookmarks ph (map fst (bookmarks self')) []"
  let ?T = "list_tags ph (tagslist (repo self)) []"
  have "lines = (''@refs/heads/'' @ fst hn @ '' HEAD'') # ?B @ ?K @ ?T @ [[]]"
    by (rule do_list_sections [OF dl rh])
  then have lines: "lines = ''@refs/heads/master HEAD'' # ?B @ ?K @ ?T @ [[]]"
    by (simp only: hn append_Cons append_Nil)
  have d: "drop (length out0) out = lines" by (simp add: o)
  have 1: "hd (drop (length out0) out) = ''@refs/heads/master HEAD''"
    by (simp only: d lines list.sel)
  have 2: "''@refs/heads/default HEAD'' \<notin> set (drop (length out0) out)"
    using head_line_not_listed [of ph "map fst (branches self')" "map fst (bookmarks self')"
        "tagslist (repo self)"]
    unfolding d by (simp add: lines)
  have 3: "\<exists>rest. out = out0 @ ''@refs/heads/master HEAD'' # ?B @ rest"
    using lines o by blast
  have 4: "''? refs/heads/master'' \<in> set ?B"
    if "''default'' \<in> set (branchmap (repo self)) \<and> branchheads (repo self) ''default'' \<noteq> []"
  proof -
    from that have "''default'' \<in> fst ` set (branches self')"
      unfolding br update_branches_keys by blast
    then have "''default'' \<in> set (map fst (branches self'))" by simp
    then show ?thesis by (rule branch_line_default)
  qed
  have 5: "''? refs/heads/branches/default'' \<notin> set ?B"
    if "\<exists>c \<in> set ph. c \<notin> set ''default''"
    using that by (rule no_branch_line_default)
  from 1 2 3 4 5 show ?thesis by blast
qed

theorem do_list_default_is_master_witness:
  "readcurrent (repo example_remote) = None \<and>
   dirstate_branch (repo example_remote) = ''default'' \<and>
   \<not> empty_repository (repo example_remote) \<and>
   do_list ''___'' example_remote [''*export-marks .git/hg/0a1b/marks-git'', []] =
     Inr (example_remote\<lparr>headnode := Some (''master'', 4),
            bookmarks := [(''master'', 2), (''new feature'', 3)],
            branches := [(''default'', [''cc33'']), (''old stable'', [''bb22''])]\<rparr>,
          [''*export-marks .git/hg/0a1b/marks-git'', []] @
          [''@refs/heads/master HEAD'', ''? refs/heads/master'',
           ''? refs/heads/branches/old___stable'', ''? refs/heads/new___feature'',
           ''? refs/tags/v___1.0'', []]) \<and>
   hd (drop (length [''*export-marks .git/hg/0a1b/marks-git'', []])
        ([''*export-marks .git/hg/0a1b/marks-git'', []] @
         [''@refs/heads/master HEAD'', ''? refs/heads/master'',
          ''? refs/heads/branches/old___stable'', ''? refs/heads/new___feature'',
          ''? refs/tags/v___1.0'', []])) = ''@refs/heads/master HEAD'' \<and>
   ''? refs/heads/master'' \<in> set (list_branches ''___'' [''default'', ''old stable''] []) \<and>
   ''? refs/heads/branches/default'' \<notin> set (list_branches ''___'' [''default'', ''old stable''] [])"
proof -
  let ?o = "[''*export-marks .git/hg/0a1b/marks-git'', []]"
  let ?s = "example_remote\<lparr>headnode := Some (''master'', 4),
            bookmarks := [(''master'', 2), (''new feature'', 3)],
            branches := [(''default'', [''cc33'']), (''old stable'', [''bb22''])]\<rparr>"
  have a: "readcurrent (repo example_remote) = None"
    by (simp add: example_remote_def example_repo_def)
  have b: "dirstate_branch (repo example_remote) = ''default''"
    by (simp add: example_remote_def example_repo_def)
  have d: "''default'' \<in> set (branchmap (repo example_remote)) \<and>
      branchheads (repo example_remote) ''default'' \<noteq> []"
    by (simp add: example_remote_def example_repo_def)
  have e: "\<exists>c \<in> set ''___''. c \<notin> set ''default''" by simp
  note x = example_do_list_prior [of ?o]
  note t = do_list_default_is_master [OF a b example_not_empty x]
  from t have 0: "hd (drop (length ?o)
        (?o @ [''@refs/heads/master HEAD'', ''? refs/heads/master'',
          ''? refs/heads/branches/old___stable'', ''? refs/heads/new___feature'',
          ''? refs/tags/v___1.0'', []])) = ''@refs/heads/master HEAD''"
    by blast
  from t d have 1: "''? refs/heads/master'' \<in> set (list_branches ''___''
      (map fst (branches ?s)) [])"
    by blast
  from t e have 2: "''? refs/heads/branches/default'' \<notin> set (list_branches ''___''
      (map fst (branches ?s)) [])"
    by blast
  have k: "map fst (branches ?s) = [''default'', ''old stable'']"
    by simp
  from 1 2 have 3: "''? refs/heads/master'' \<in> set (list_branches ''___'' [''default'', ''old stable''] [])"
    and 4: "''? refs/heads/branches/default'' \<notin> set (list_branches ''___'' [''default'', ''old stable''] [])"
    unfolding k by blast+
  from a b example_not_empty x 0 3 4 show ?thesis by blast
qed

text \<open>
  Claim C9. On a repository that is not empty, and whatever has been written to the
  standard output before, the list command adds the head line, the lines of the
  named branches, the lines of the bookmarks, the lines of the tags and a blank line.
  Every bookmark \<open>b\<close> of the repository other than \<^verbatim>\<open>master\<close> has the line
  \<^verbatim>\<open>? refs/heads/<b>\<close> among the bookmark lines, and every tag \<open>t\<close> other than
  \<^verbatim>\<open>tip\<close> has the line \<^verbatim>\<open>? refs/tags/<t>\<close> among the tag lines, the names with
  their spaces escaped. A bookmark named \<^verbatim>\<open>master\<close> and the tag \<^verbatim>\<open>tip\<close> have no
  line: there are as many bookmark lines as bookmarks other than \<^verbatim>\<open>master\<close> and as
  many tag lines as tags other than \<^verbatim>\<open>tip\<close>, and, when the placeholder has a byte
  that \<^verbatim>\<open>master\<close> (respectively \<^verbatim>\<open>tip\<close>) does not have, no bookmark line is
  \<^verbatim>\<open>? refs/heads/master\<close> and no tag line is \<^verbatim>\<open>? refs/tags/tip\<close>.
\<close>

theorem do_list_bookmarks_and_tags:
  assumes "\<not> empty_repository (repo self)"
    and "do_list ph self out0 = Inr (self', out)"
  shows "(\<exists>h. out = out0 @ h # list_branches ph (map fst (branches self')) [] @
              list_bookmarks ph (map fst (bookmarks self')) [] @
              list_tags ph (tagslist (repo self)) [] @ [[]]) \<and>
    (\<forall>b \<in> set (map fst (listbookmarks (repo self))). b \<noteq> ''master'' \<longrightarrow>
       ''? refs/heads/'' @ hg_to_git_spaces ph b
         \<in> set (list_bookmarks ph (map fst (bookmarks self')) [])) \<and>
    length (list_bookmarks ph (map fst (bookmarks self')) []) =
      length (filter (\<lambda>b. b \<noteq> ''master'') (map fst (bookmarks self'))) \<and>
    ((\<exists>c \<in> set ph. c \<notin> set ''master'') \<longrightarrow>
       ''? refs/heads/master'' \<notin> set (list_bookmarks ph (map fst (bookmarks self')) [])) \<and>
    (\<forall>t \<in> set (map fst (tagslist (repo self))). t \<noteq> ''tip'' \<longrightarrow>
       ''? refs/tags/'' @ hg_to_git_spaces ph t \<in> set (list_tags ph (tagslist (repo self)) [])) \<and>
    length (list_tags ph (tagslist (repo self)) []) =
      length (filter (\<lambda>t. fst t \<noteq> ''tip'') (tagslist (repo self))) \<and>
    ((\<exists>c \<in> set ph. c \<notin> set ''tip'') \<longrightarrow>
       ''? refs/tags/tip'' \<notin> set (list_tags ph (tagslist (repo self)) []))"
proof -
  from do_list_prior_Inr [OF assms(2)] obtain lines where
    o: "out = out0 @ lines" and dl: "do_list ph self [] = Inr (self', lines)"
    by blast
  from do_list_resolved [OF dl assms(1)] obtain hn where
    rh: "resolve_head (repo self) = Inr (Some hn)"
    and ub: "update_bookmarks (repo self) (listbookmarks (repo self)) (bookmarks self) =
           Inr (bookmarks self')"
    by blast
  let ?B = "list_branches ph (map fst (branches self')) []"
  let ?K = "list_bookmarks ph (map fst (bookmarks self')) []"
  let ?T = "list_tags ph (tagslist (repo self)) []"
  have "lines = (''@refs/heads/'' @ fst hn @ '' HEAD'') # ?B @ ?K @ ?T @ [[]]"
    by (rule do_list_sections [OF dl rh])
  with o have 1: "\<exists>h. out = out0 @ h # ?B @ ?K @ ?T @ [[]]" by blast
  have keys: "set (map fst (listbookmarks (repo self))) \<subseteq> set (map fst (bookmarks self'))"
    using update_bookmarks_keys [OF ub] by auto
  have 2: "\<forall>b \<in> set (map fst (listbookmarks (repo self))). b \<noteq> ''master'' \<longrightarrow>
       ''? refs/heads/'' @ hg_to_git_spaces ph b \<in> set ?K"
    unfolding mem_list_bookmarks using keys by blast
  have 3: "length ?K = length (filter (\<lambda>b. b \<noteq> ''master'') (map fst (bookmarks self')))"
    by (rule length_list_bookmarks)
  have 4: "''? refs/heads/master'' \<notin> set ?K" if "\<exists>c \<in> set ph. c \<notin> set ''master''"
    using that by (rule no_bookmark_line_master)
  have 5: "\<forall>t \<in> set (map fst (tagslist (repo self))). t \<noteq> ''tip'' \<longrightarrow>
       ''? refs/tags/'' @ hg_to_git_spaces ph t \<in> set ?T"
    unfolding mem_list_tags by auto
  have 6: "length ?T = length (filter (\<lambda>t. fst t \<noteq> ''tip'') (tagslist (repo self)))"
    by (rule length_list_tags)
  have 7: "''? refs/tags/tip'' \<notin> set ?T" if "\<exists>c \<in> set ph. c \<notin> set ''tip''"
    using that by (rule no_tag_line_tip)
  from 1 2 3 4 5 6 7 show ?thesis by blast
qed

theorem do_list_bookmarks_and_tags_witness:
  "\<not> empty_repository (repo example_remote) \<and>
   do_list ''___'' example_remote [''*export-marks .git/hg/0a1b/marks-git'', []] =
     Inr (example_remote\<lparr>headnode := Some (''master'', 4),
            bookmarks := [(''master'', 2), (''new feature'', 3)],
            branches := [(''default'', [''cc33'']), (''old stable'', [''bb22''])]\<rparr>,
          [''*export-marks .git/hg/0a1b/marks-git'', []] @
          [''@refs/heads/master HEAD'', ''? refs/heads/master'',
           ''? refs/heads/branches/old___stable'', ''? refs/heads/new___feature'',
           ''? refs/tags/v___1.0'', []]) \<and>
   ''? refs/heads/new___feature'' \<in> set (list_bookmarks ''___'' [''master'', ''new feature''] []) \<and>
   ''? refs/heads/master'' \<notin> set (list_bookmarks ''___'' [''master'', ''new feature''] []) \<and>
   length (list_bookmarks ''___'' [''master'', ''new feature''] []) = 1 \<and>
   ''? refs/tags/v___1.0''
     \<in> set (list_tags ''___'' [(''v 1.0'', ''aa11''), (''tip'', ''cc33'')] []) \<and>
   ''? refs/tags/tip'' \<notin> set (list_tags ''___'' [(''v 1.0'', ''aa11''), (''tip'', ''cc33'')] []) \<and>
   length (list_tags ''___'' [(''v 1.0'', ''aa11''), (''tip'', ''cc33'')] []) = 1"
proof -
  let ?s = "example_remote\<lparr>headnode := Some (''master'', 4),
            bookmarks := [(''master'', 2), (''new feature'', 3)],
            branches := [(''default'', [''cc33'']), (''old stable'', [''bb22''])]\<rparr>"
  note x = example_do_list_prior [of "[''*export-marks .git/hg/0a1b/marks-git'', []]"]
  note t = do_list_bookmarks_and_tags [OF example_not_empty x]
  have k: "map fst (bookmarks ?s) = [''master'', ''new feature'']" by simp
  have lb: "map fst (listbookmarks (repo example_remote)) = [''master'', ''new feature'']"
    by (simp add: example_remote_def example_repo_def)
  have tl: "tagslist (repo example_remote) = [(''v 1.0'', ''aa11''), (''tip'', ''cc33'')]"
    by (simp add: example_remote_def example_repo_def)
  have e1: "hg_to_git_spaces ''___'' ''new feature'' = ''new___feature''"
    by (simp add: hg_to_git_spaces_def)
  have e2: "hg_to_git_spaces ''___'' ''v 1.0'' = ''v___1.0''"
    by (simp add: hg_to_git_spaces_def)
  have m: "\<exists>c \<in> set ''___''. c \<notin> set ''master''" by simp
  have tp: "\<exists>c \<in> set ''___''. c \<notin> set ''tip''" by simp
  from t have "\<forall>b \<in> set (map fst (listbookmarks (repo example_remote))). b \<noteq> ''master'' \<longrightarrow>
       ''? refs/heads/'' @ hg_to_git_spaces ''___'' b
         \<in> set (list_bookmarks ''___'' (map fst (bookmarks ?s)) [])"
    by blast
  then have "''new feature'' \<noteq> ''master'' \<longrightarrow>
       ''? refs/heads/'' @ hg_to_git_spaces ''___'' ''new feature''
         \<in> set (list_bookmarks ''___'' (map fst (bookmarks ?s)) [])"
    unfolding lb by (rule bspec) simp
  then have 1: "''? refs/heads/new___feature'' \<in> set (list_bookmarks ''___'' [''master'', ''new feature''] [])"
    unfolding k e1 by simp
  from t m have "''? refs/heads/master'' \<notin> set (list_bookmarks ''___'' (map fst (bookmarks ?s)) [])"
    by blast
  then have 2: "''? refs/heads/master'' \<notin> set (list_bookmarks ''___'' [''master'', ''new feature''] [])"
    unfolding k .
  from t have "length (list_bookmarks ''___'' (map fst (bookmarks ?s)) []) =
      length (filter (\<lambda>b. b \<noteq> ''master'') (map fst (bookmarks ?s)))"
    by blast
  then have 3: "length (list_bookmarks ''___'' [''master'', ''new feature''] []) = 1"
    unfolding k by simp
  from t have "\<forall>t \<in> set (map fst (tagslist (repo example_remote))). t \<noteq> ''tip'' \<longrightarrow>
       ''? refs/tags/'' @ hg_to_git_spaces ''___'' t
         \<in> set (list_tags ''___'' (tagslist (repo example_remote)) [])"
    by blast
  then have "''v 1.0'' \<noteq> ''tip'' \<longrightarrow>
       ''? refs/tags/'' @ hg_to_git_spaces ''___'' ''v 1.0''
         \<in> set (list_tags ''___'' (tagslist (repo example_remote)) [])"
    unfolding tl by (rule bspec) simp
  then have 4: "''? refs/tags/v___1.0''
     \<in> set (list_tags ''___'' [(''v 1.0'', ''aa11''), (''tip'', ''cc33'')] [])"
    unfolding tl e2 by simp
  from t tp have "''? refs/tags/tip'' \<notin> set (list_tags ''___'' (tagslist (repo example_remote)) [])"
    by blast
  then have 5: "''? refs/tags/tip'' \<notin> set (list_tags ''___'' [(''v 1.0'', ''aa11''), (''tip'', ''cc33'')] [])"
    unfolding tl .
  from t have "length (list_tags ''___'' (tagslist (repo example_remote)) []) =
      length (filter (\<lambda>t. fst t \<noteq> ''tip'') (tagslist (repo example_remote)))"
    by blast
  then have 6: "length (list_tags ''___'' [(''v 1.0'', ''aa11''), (''tip'', ''cc33'')] []) = 1"
    unfolding tl by simp
  from example_not_empty x 1 2 3 4 5 6 show ?thesis by blast
qed

subsection \<open>The command loop\<close>

text \<open>
  Claim C5. Let the first token of a line be none of \<^verbatim>\<open>capabilities\<close>, \<^verbatim>\<open>list\<close>,
  \<^verbatim>\<open>import\<close> and \<^verbatim>\<open>export\<close>. Then the body of the loop fails with the message
  \<^verbatim>\<open>unhandled command: \<close> followed by the line, whatever the handlers are, and the
  loop that meets the line as its current line ends with that failure. A line whose
  first token is one of the four is handed to the handler of that name:
  \<^verbatim>\<open>do_capabilities\<close>, \<^verbatim>\<open>do_list\<close>, the importer or the exporter; the loop goes
  on with the next line after the handler has returned, and ends with the handler's
  failure when it fails.
\<close>

theorem unhandled_command_is_fatal:
  assumes "split_first l = Inr command"
  shows "(command \<notin> set [''capabilities'', ''list'', ''import'', ''export''] \<longrightarrow>
       dispatch pe ph imp exp l w = Inl (Die (''unhandled command: '' @ l)) \<and>
       (line (fst (snd w)) = l \<longrightarrow>
          process_loop pe ph imp exp w = Some (Inl (Die (''unhandled command: '' @ l))))) \<and>
    (command = ''capabilities'' \<longrightarrow>
       dispatch pe ph imp exp l (self, parser, out) =
         Inr (self, parser, do_capabilities pe self out)) \<and>
    (command = ''list'' \<longrightarrow>
       dispatch pe ph imp exp l (self, parser, out) =
         (case do_list ph self out of
            Inl e \<Rightarrow> Inl e
          | Inr (self', out') \<Rightarrow> Inr (self', parser, out'))) \<and>
    (command = ''import'' \<longrightarrow> dispatch pe ph imp exp l w = imp w) \<and>
    (command = ''export'' \<longrightarrow> dispatch pe ph imp exp l w = exp w) \<and>
    (line (fst (snd w)) = l \<longrightarrow>
       process_loop pe ph imp exp w =
         (case dispatch pe ph imp exp l w of
            Inl e \<Rightarrow> Some (Inl e)
          | Inr (self', parser', out') \<Rightarrow>
              process_loop pe ph imp exp (self', snd (read_line parser'), out')))"
proof -
  from assms have ne: "l \<noteq> []" by (rule split_first_nonempty)
  have loop: "process_loop pe ph imp exp w =
         (case dispatch pe ph imp exp l w of
            Inl e \<Rightarrow> Some (Inl e)
          | Inr (self', parser', out') \<Rightarrow>
              process_loop pe ph imp exp (self', snd (read_line parser'), out'))"
    if "line (fst (snd w)) = l"
    using process_loop_step [of w pe ph imp exp] that ne by simp
  have d: "dispatch pe ph imp exp l w = Inl (Die (''unhandled command: '' @ l))"
    if "command \<notin> set [''capabilities'', ''list'', ''import'', ''export'']"
    using that assms by (simp add: dispatch_def die_def)
  have 1: "process_loop pe ph imp exp w = Some (Inl (Die (''unhandled command: '' @ l)))"
    if "command \<notin> set [''capabilities'', ''list'', ''import'', ''export'']"
      and "line (fst (snd w)) = l"
    using loop [OF that(2)] d [OF that(1)] by simp
  have 2: "dispatch pe ph imp exp l (self, parser, out) =
         Inr (self, parser, do_capabilities pe self out)" if "command = ''capabilities''"
    using that assms by (simp add: dispatch_def getattr_call_def)
  have 3: "dispatch pe ph imp exp l (self, parser, out) =
         (case do_list ph self out of
            Inl e \<Rightarrow> Inl e
          | Inr (self', out') \<Rightarrow> Inr (self', parser, out'))" if "command = ''list''"
    using that assms by (simp add: dispatch_def getattr_call_def)
  have 4: "dispatch pe ph imp exp l w = imp w" if "command = ''import''"
    using that assms by (cases w) (simp add: dispatch_def getattr_call_def)
  have 5: "dispatch pe ph imp exp l w = exp w" if "command = ''export''"
    using that assms by (cases w) (simp add: dispatch_def getattr_call_def)
  from d 1 2 3 4 5 loop show ?thesis by blast
qed

theorem unhandled_command_is_fatal_witness:
  "split_first ''fetch origin'' = Inr ''fetch'' \<and>
   process_loop (\<lambda>p. False) ''___'' Inr Inr
       (example_remote, parser_init ''fetch origin\<newline>list\<newline>'', []) =
     Some (Inl (Die ''unhandled command: fetch origin'')) \<and>
   split_first ''import refs/heads/master'' = Inr ''import'' \<and>
   dispatch (\<lambda>p. False) ''___'' Inr Inr ''import refs/heads/master''
       (example_remote, parser_init ''import refs/heads/master\<newline>'', []) =
     Inr (example_remote, parser_init ''import refs/heads/master\<newline>'', []) \<and>
   split_first ''capabilities'' = Inr ''capabilities'' \<and>
   dispatch (\<lambda>p. False) ''___'' Inr Inr ''capabilities''
       (example_remote, parser_init ''capabilities\<newline>'', []) =
     Inr (example_remote, parser_init ''capabilities\<newline>'',
          do_capabilities (\<lambda>p. False) example_remote [])"
proof -
  let ?w = "(example_remote, parser_init ''fetch origin\<newline>list\<newline>'', [])"
  have s1: "split_first ''fetch origin'' = Inr ''fetch''"
    by (simp add: split_first_def is_space_def)
  have s2: "split_first ''import refs/heads/master'' = Inr ''import''"
    by (simp add: split_first_def is_space_def)
  have s3: "split_first ''capabilities'' = Inr ''capabilities''"
    by (simp add: split_first_def is_space_def)
  have n: "''fetch'' \<notin> set [''capabilities'', ''list'', ''import'', ''export'']" by simp
  have l: "line (fst (snd ?w)) = ''fetch origin''"
    by (simp add: parser_init_def read_line_def strip_def is_space_def)
  from unhandled_command_is_fatal [OF s1, of "\<lambda>p. False" "''___''" Inr Inr ?w] n l
  have 1: "process_loop (\<lambda>p. False) ''___'' Inr Inr ?w =
      Some (Inl (Die (''unhandled command: '' @ ''fetch origin'')))"
    by blast
  from unhandled_command_is_fatal [OF s2, of "\<lambda>p. False" "''___''" Inr Inr
      "(example_remote, parser_init ''import refs/heads/master\<newline>'', [])"]
  have 2: "dispatch (\<lambda>p. False) ''___'' Inr Inr ''import refs/heads/master''
       (example_remote, parser_init ''import refs/heads/master\<newline>'', []) =
     Inr (example_remote, parser_init ''import refs/heads/master\<newline>'', [])"
    by blast
  from unhandled_command_is_fatal [OF s3, of "\<lambda>p. False" "''___''" Inr Inr]
  have 3: "dispatch (\<lambda>p. False) ''___'' Inr Inr ''capabilities''
       (example_remote, parser_init ''capabilities\<newline>'', []) =
     Inr (example_remote, parser_init ''capabilities\<newline>'',
          do_capabilities (\<lambda>p. False) example_remote [])"
    by blast
  from 1 have u: "process_loop (\<lambda>p. False) ''___'' Inr Inr ?w =
      Some (Inl (Die ''unhandled command: fetch origin''))"
    by simp
  from s1 u s2 2 s3 3 show ?thesis by blast
qed

end
